theory Spec2Isabelle
  imports Complex_Main "HOL-Library.Word"
begin

unbundle bit_operations_syntax

section \<open>Values of the Python program\<close>

text \<open>
  A Python \<open>str\<close> is a sequence of code points, a \<open>bytes\<close> object a sequence of
  octets.  Exceptions are values: every function that can raise returns a sum whose
  left injection is the exception.
\<close>

type_synonym byte = "8 word"
type_synonym bytes = "byte list"
type_synonym str = "nat list"

datatype exn =
    UnicodeEncodeError
  | UnicodeDecodeError
  | BinasciiError
  | InvalidToken
  | PyperclipException
  | ValueError message
and message =
    PleaseSetPassword
  | FernetKeyLength
  | DecryptFailed exn
  | DurationOutOfRange
  | SleepLengthNegative

section \<open>\<open>str.encode()\<close> and \<open>bytes.decode()\<close>: UTF-8\<close>

definition is_surrogate :: "nat \<Rightarrow> bool" where
  "is_surrogate c \<longleftrightarrow> 0xD800 \<le> c \<and> c \<le> 0xDFFF"

text \<open>Strings of Unicode scalar values: the strings that have a UTF-8 form.\<close>

definition unicode_text :: "str \<Rightarrow> bool" where
  "unicode_text s = list_all (\<lambda>c. c < 0x110000 \<and> \<not> is_surrogate c) s"

definition encode_char :: "nat \<Rightarrow> bytes option" where
  "encode_char c =
     (if c < 0x80 then Some [of_nat c]
      else if c < 0x800 then Some [of_nat (0xC0 + c div 64), of_nat (0x80 + c mod 64)]
      else if is_surrogate c then None
      else if c < 0x10000 then
        Some [of_nat (0xE0 + c div 4096), of_nat (0x80 + c div 64 mod 64),
              of_nat (0x80 + c mod 64)]
      else if c < 0x110000 then
        Some [of_nat (0xF0 + c div 262144), of_nat (0x80 + c div 4096 mod 64),
              of_nat (0x80 + c div 64 mod 64), of_nat (0x80 + c mod 64)]
      else None)"

text \<open>\<open>s.encode()\<close>: raises \<open>UnicodeEncodeError\<close> on a lone surrogate.\<close>

fun str_encode :: "str \<Rightarrow> exn + bytes" where
  "str_encode [] = Inr []"
| "str_encode (c # cs) =
     (case encode_char c of
        None \<Rightarrow> Inl UnicodeEncodeError
      | Some bs \<Rightarrow> (case str_encode cs of Inl e \<Rightarrow> Inl e | Inr r \<Rightarrow> Inr (bs @ r)))"

definition is_cont :: "byte \<Rightarrow> bool" where
  "is_cont b \<longleftrightarrow> 0x80 \<le> unat b \<and> unat b < 0xC0"

definition cont :: "byte \<Rightarrow> nat" where
  "cont b = unat b - 0x80"

definition emit :: "nat \<Rightarrow> exn + str \<Rightarrow> exn + str" where
  "emit c r = (case r of Inl e \<Rightarrow> Inl e | Inr cs \<Rightarrow> Inr (c # cs))"

text \<open>
  \<open>b.decode()\<close>: the strict UTF-8 decoder.  Overlong forms, surrogates, values above
  U+10FFFF and truncated sequences raise \<open>UnicodeDecodeError\<close>.
\<close>

fun bytes_decode :: "bytes \<Rightarrow> exn + str" where
  "bytes_decode [] = Inr []"
| "bytes_decode (b0 # bs) =
     (let n = unat b0 in
      if n < 0x80 then emit n (bytes_decode bs)
      else if 0xC2 \<le> n \<and> n < 0xE0 then
        (case bs of
           b1 # r \<Rightarrow>
             if is_cont b1 then emit ((n - 0xC0) * 64 + cont b1) (bytes_decode r)
             else Inl UnicodeDecodeError
         | _ \<Rightarrow> Inl UnicodeDecodeError)
      else if 0xE0 \<le> n \<and> n < 0xF0 then
        (case bs of
           b1 # b2 # r \<Rightarrow>
             (let c = (n - 0xE0) * 4096 + cont b1 * 64 + cont b2 in
              if is_cont b1 \<and> is_cont b2 \<and> 0x800 \<le> c \<and> \<not> is_surrogate c
              then emit c (bytes_decode r) else Inl UnicodeDecodeError)
         | _ \<Rightarrow> Inl UnicodeDecodeError)
      else if 0xF0 \<le> n \<and> n < 0xF5 then
        (case bs of
           b1 # b2 # b3 # r \<Rightarrow>
             (let c = (n - 0xF0) * 262144 + cont b1 * 4096 + cont b2 * 64 + cont b3 in
              if is_cont b1 \<and> is_cont b2 \<and> is_cont b3 \<and> 0x10000 \<le> c \<and> c < 0x110000
              then emit c (bytes_decode r) else Inl UnicodeDecodeError)
         | _ \<Rightarrow> Inl UnicodeDecodeError)
      else Inl UnicodeDecodeError)"

section \<open>\<open>base64.urlsafe_b64encode\<close> and \<open>base64.urlsafe_b64decode\<close>\<close>

text \<open>
  The two tables of \<open>binascii\<close>: a sextet to its character, and a character to its
  sextet (\<open>None\<close> for a character outside the alphabet).
\<close>

definition table_b2a_base64 :: "byte \<Rightarrow> byte" where
  "table_b2a_base64 n =
     (if n < 26 then n + 65 else if n < 52 then n + 71 else if n < 62 then n - 4
      else if n = 62 then 43 else 47)"

definition table_a2b_base64 :: "byte \<Rightarrow> byte option" where
  "table_a2b_base64 c =
     (if 65 \<le> c \<and> c \<le> 90 then Some (c - 65)
      else if 97 \<le> c \<and> c \<le> 122 then Some (c - 71)
      else if 48 \<le> c \<and> c \<le> 57 then Some (c + 4)
      else if c = 43 then Some 62
      else if c = 47 then Some 63
      else None)"

fun b2a_base64 :: "bytes \<Rightarrow> bytes" where
  "b2a_base64 (a # b # c # rest) =
     [table_b2a_base64 (drop_bit 2 a),
      table_b2a_base64 (push_bit 4 (a AND 3) OR drop_bit 4 b),
      table_b2a_base64 (push_bit 2 (b AND 15) OR drop_bit 6 c),
      table_b2a_base64 (c AND 63)] @ b2a_base64 rest"
| "b2a_base64 [a, b] =
     [table_b2a_base64 (drop_bit 2 a),
      table_b2a_base64 (push_bit 4 (a AND 3) OR drop_bit 4 b),
      table_b2a_base64 (push_bit 2 (b AND 15)), 61]"
| "b2a_base64 [a] =
     [table_b2a_base64 (drop_bit 2 a), table_b2a_base64 (push_bit 4 (a AND 3)), 61, 61]"
| "b2a_base64 [] = []"

text \<open>
  \<open>binascii.a2b_base64\<close> in its default, lenient mode: characters outside the alphabet
  are skipped, a complete pad sequence ends the input, and data that stops inside a
  quad raises \<open>binascii.Error\<close>.  The state is that of the C loop: the position in the
  quad, the bits left over, the pads seen, and the output so far.
\<close>

fun a2b_base64 :: "bytes \<Rightarrow> nat \<Rightarrow> byte \<Rightarrow> nat \<Rightarrow> bytes \<Rightarrow> exn + bytes" where
  "a2b_base64 [] quad_pos leftchar pads bin_data =
     (if quad_pos \<noteq> 0 then Inl BinasciiError else Inr bin_data)"
| "a2b_base64 (ch # ascii_data) quad_pos leftchar pads bin_data =
     (if ch = 61 then
        (if 2 \<le> quad_pos \<and> 4 \<le> quad_pos + (pads + 1) then Inr bin_data
         else a2b_base64 ascii_data quad_pos leftchar
                (if 2 \<le> quad_pos then pads + 1 else pads) bin_data)
      else
        (case table_a2b_base64 ch of
           None \<Rightarrow> a2b_base64 ascii_data quad_pos leftchar pads bin_data
         | Some this_ch \<Rightarrow>
             (if quad_pos = 0 then a2b_base64 ascii_data 1 this_ch 0 bin_data
              else if quad_pos = 1 then
                a2b_base64 ascii_data 2 (this_ch AND 15) 0
                  (bin_data @ [push_bit 2 leftchar OR drop_bit 4 this_ch])
              else if quad_pos = 2 then
                a2b_base64 ascii_data 3 (this_ch AND 3) 0
                  (bin_data @ [push_bit 4 leftchar OR drop_bit 2 this_ch])
              else
                a2b_base64 ascii_data 0 0 0
                  (bin_data @ [push_bit 6 leftchar OR this_ch]))))"

definition b64encode :: "bytes \<Rightarrow> bytes" where
  "b64encode s = b2a_base64 s"

definition b64decode :: "bytes \<Rightarrow> exn + bytes" where
  "b64decode s = a2b_base64 s 0 0 0 []"

definition urlsafe_encode_translation :: "byte \<Rightarrow> byte" where
  "urlsafe_encode_translation c = (if c = 43 then 45 else if c = 47 then 95 else c)"

definition urlsafe_decode_translation :: "byte \<Rightarrow> byte" where
  "urlsafe_decode_translation c = (if c = 45 then 43 else if c = 95 then 47 else c)"

definition urlsafe_b64encode :: "bytes \<Rightarrow> bytes" where
  "urlsafe_b64encode s = map urlsafe_encode_translation (b64encode s)"

definition urlsafe_b64decode :: "bytes \<Rightarrow> exn + bytes" where
  "urlsafe_b64decode s = b64decode (map urlsafe_decode_translation s)"

text \<open>
  Two predicates on characters, for the proofs: \<open>c\<close> is the character of the sextet
  \<open>n\<close>; \<open>c\<close> is seven-bit and not one of the two characters the url-safe alphabet
  substitutes.
\<close>

definition alphabet_char :: "byte \<Rightarrow> byte \<Rightarrow> bool" where
  "alphabet_char n c \<longleftrightarrow>
     table_a2b_base64 c = Some n \<and> c \<noteq> 61 \<and> c < 128 \<and> c \<noteq> 45 \<and> c \<noteq> 95"

definition plain_char :: "byte \<Rightarrow> bool" where
  "plain_char c \<longleftrightarrow> c < 128 \<and> c \<noteq> 45 \<and> c \<noteq> 95"

section \<open>The primitives of the \<open>cryptography\<close> package\<close>

text \<open>
  SHA-256 and the Fernet token scheme are parameters of the development.  A Fernet
  object is its 32-byte key; \<open>fernet_encrypt\<close> takes the time stamp and the
  initialisation vector that \<open>Fernet.encrypt\<close> draws from the clock and from
  \<open>os.urandom\<close>; \<open>fernet_decrypt\<close> returns \<open>None\<close> where \<open>Fernet.decrypt\<close> raises
  \<open>InvalidToken\<close>.
\<close>

record primitives =
  sha256 :: "bytes \<Rightarrow> bytes"
  fernet_encrypt :: "bytes \<Rightarrow> int \<Rightarrow> bytes \<Rightarrow> bytes \<Rightarrow> bytes"
  fernet_decrypt :: "bytes \<Rightarrow> bytes \<Rightarrow> bytes option"

text \<open>What the development assumes of them, where it says so.\<close>

definition sha256_sized :: "primitives \<Rightarrow> bool" where
  "sha256_sized L = (\<forall>x. length (sha256 L x) = 32)"

definition fernet_correct :: "primitives \<Rightarrow> bool" where
  "fernet_correct L =
     (\<forall>k t iv d. length k = 32 \<longrightarrow> fernet_decrypt L k (fernet_encrypt L k t iv d) = Some d)"

subsection \<open>HMAC and PBKDF2 over the hash, as \<open>PBKDF2HMAC\<close> computes them\<close>

definition hmac_key_block :: "primitives \<Rightarrow> bytes \<Rightarrow> bytes" where
  "hmac_key_block L k =
     (let k' = (if 64 < length k then sha256 L k else k) in k' @ replicate (64 - length k') 0)"

definition hmac_sha256 :: "primitives \<Rightarrow> bytes \<Rightarrow> bytes \<Rightarrow> bytes" where
  "hmac_sha256 L k m =
     sha256 L (map (\<lambda>b. b XOR 0x5C) (hmac_key_block L k)
               @ sha256 L (map (\<lambda>b. b XOR 0x36) (hmac_key_block L k) @ m))"

definition int32_be :: "nat \<Rightarrow> bytes" where
  "int32_be i = [of_nat (i div 16777216), of_nat (i div 65536), of_nat (i div 256), of_nat i]"

fun pbkdf2_rounds :: "(bytes \<Rightarrow> bytes) \<Rightarrow> nat \<Rightarrow> bytes \<Rightarrow> bytes \<Rightarrow> bytes" where
  "pbkdf2_rounds prf 0 u t = t"
| "pbkdf2_rounds prf (Suc n) u t =
     (let u' = prf u in pbkdf2_rounds prf n u' (map2 (XOR) t u'))"

definition pbkdf2_block :: "primitives \<Rightarrow> bytes \<Rightarrow> bytes \<Rightarrow> nat \<Rightarrow> nat \<Rightarrow> bytes" where
  "pbkdf2_block L password salt iterations i =
     (let u1 = hmac_sha256 L password (salt @ int32_be i)
      in pbkdf2_rounds (hmac_sha256 L password) (iterations - 1) u1 u1)"

definition PBKDF2HMAC_derive :: "primitives \<Rightarrow> nat \<Rightarrow> bytes \<Rightarrow> nat \<Rightarrow> bytes \<Rightarrow> bytes" where
  "PBKDF2HMAC_derive L len salt iterations password =
     take len (concat (map (pbkdf2_block L password salt iterations)
                         [1 ..< Suc ((len + 31) div 32)]))"

text \<open>\<open>Fernet(key)\<close>: the key must be the url-safe base64 form of 32 bytes.\<close>

definition Fernet :: "bytes \<Rightarrow> exn + bytes" where
  "Fernet key =
     (case urlsafe_b64decode key of
        Inl e \<Rightarrow> Inl e
      | Inr raw \<Rightarrow> if length raw \<noteq> 32 then Inl (ValueError FernetKeyLength) else Inr raw)"

section \<open>\<open>CryptoManager\<close>\<close>

record crypto_manager =
  key :: "bytes option"
  cipher_suite :: "bytes option"

definition CryptoManager_init :: crypto_manager where
  "CryptoManager_init = \<lparr>key = None, cipher_suite = None\<rparr>"

text \<open>
  \<open>set_password\<close>: \<open>urandom16\<close> is what \<open>os.urandom(16)\<close> returns when no salt is
  given.  The result is the manager with the new key and the salt used.
\<close>

definition set_password ::
  "primitives \<Rightarrow> crypto_manager \<Rightarrow> str \<Rightarrow> bytes option \<Rightarrow> bytes \<Rightarrow> exn + crypto_manager \<times> bytes"
where
  "set_password L self password salt_arg urandom16 =
     (let salt = (case salt_arg of None \<Rightarrow> urandom16 | Some s \<Rightarrow> s) in
      case str_encode password of
        Inl e \<Rightarrow> Inl e
      | Inr pw \<Rightarrow>
          (let k = urlsafe_b64encode (PBKDF2HMAC_derive L 32 salt 100000 pw) in
           case Fernet k of
             Inl e \<Rightarrow> Inl e
           | Inr f \<Rightarrow> Inr (self\<lparr>key := Some k, cipher_suite := Some f\<rparr>, salt)))"

definition encrypt :: "primitives \<Rightarrow> crypto_manager \<Rightarrow> int \<Rightarrow> bytes \<Rightarrow> str \<Rightarrow> exn + str" where
  "encrypt L self now iv plaintext =
     (case cipher_suite self of
        None \<Rightarrow> Inl (ValueError PleaseSetPassword)
      | Some f \<Rightarrow>
          (case str_encode plaintext of
             Inl e \<Rightarrow> Inl e
           | Inr d \<Rightarrow> bytes_decode (urlsafe_b64encode (fernet_encrypt L f now iv d))))"

text \<open>The body of the \<open>try\<close> in \<open>decrypt\<close>.\<close>

definition decrypt_body :: "primitives \<Rightarrow> bytes \<Rightarrow> str \<Rightarrow> exn + str" where
  "decrypt_body L f ciphertext =
     (case str_encode ciphertext of
        Inl e \<Rightarrow> Inl e
      | Inr c \<Rightarrow>
          (case urlsafe_b64decode c of
             Inl e \<Rightarrow> Inl e
           | Inr encrypted_data \<Rightarrow>
               (case fernet_decrypt L f encrypted_data of
                  None \<Rightarrow> Inl InvalidToken
                | Some decrypted_data \<Rightarrow> bytes_decode decrypted_data)))"

definition decrypt :: "primitives \<Rightarrow> crypto_manager \<Rightarrow> str \<Rightarrow> exn + str" where
  "decrypt L self ciphertext =
     (case cipher_suite self of
        None \<Rightarrow> Inl (ValueError PleaseSetPassword)
      | Some f \<Rightarrow>
          (case decrypt_body L f ciphertext of
             Inl e \<Rightarrow> Inl (ValueError (DecryptFailed e))
           | Inr s \<Rightarrow> Inr s))"

text \<open>
  \<open>is_encrypted_text\<close>: the \<open>try\<close> decodes the text, then calls \<open>decrypt\<close>; the bare
  \<open>except\<close> turns every exception into \<open>False\<close>.
\<close>

definition is_encrypted_text_body :: "primitives \<Rightarrow> crypto_manager \<Rightarrow> str \<Rightarrow> exn + bool" where
  "is_encrypted_text_body L self text =
     (case str_encode text of
        Inl e \<Rightarrow> Inl e
      | Inr t \<Rightarrow>
          (case urlsafe_b64decode t of
             Inl e \<Rightarrow> Inl e
           | Inr _ \<Rightarrow> (case decrypt L self text of Inl e \<Rightarrow> Inl e | Inr _ \<Rightarrow> Inr True)))"

definition is_encrypted_text :: "primitives \<Rightarrow> crypto_manager \<Rightarrow> str \<Rightarrow> exn + bool" where
  "is_encrypted_text L self text =
     (case cipher_suite self of
        None \<Rightarrow> Inr False
      | Some _ \<Rightarrow>
          (case is_encrypted_text_body L self text of Inl _ \<Rightarrow> Inr False | Inr b \<Rightarrow> Inr b))"

section \<open>\<open>ClipboardManager\<close> and its environment\<close>

text \<open>
  The messages handed to \<open>on_error\<close> (the source formats them in Chinese; the
  constructor keeps which message it is and the exception it quotes), the texts handed
  to the encryption and decryption callbacks, and the calls made to the callbacks.
\<close>

datatype report =
    MonitorError exn
  | SetClipboardFailed exn
  | HandleChangeFailed exn
  | AutoEncryptFailed exn
  | AutoDecryptFailed exn
  | ClipboardEmpty
  | AlreadyEncrypted
  | NotEncrypted
  | ManualEncryptFailed exn
  | ManualDecryptFailed exn
  | TemporaryDecryptFailed exn
  | ReEncryptFailed exn
  | PeekDecryptFailed exn

datatype notice =
    Plain str
  | TemporarilyDecrypted str int
  | ReEncrypted str

datatype event =
    ClipboardChanged str str
  | EncryptionPerformed notice
  | DecryptionPerformed notice
  | ErrorReported report
  | EncryptionStatusChanged nat

datatype console =
    PasswordNotSet
  | DurationNotInRange
  | TemporaryDecryptAnnounced int

text \<open>A started re-encryption thread: the variables its closure captured.\<close>

record job =
  duration_seconds :: int
  decrypted_text :: str
  original_encrypted :: str

text \<open>
  The state: the fields of the \<open>ClipboardManager\<close> object (a callback field is
  \<open>True\<close> when a callback is registered), then the environment: the operating system's
  clipboard and whether \<open>pyperclip\<close> fails on it, the clock, the random source, and
  what the program did to the outside, in order (callback calls, \<open>pyperclip.copy\<close>
  calls, sleeps, threads started, console lines).
\<close>

record world =
  crypto :: crypto_manager
  is_running :: bool
  last_clipboard_content :: str
  encryption_enabled :: bool
  auto_decrypt_enabled :: bool
  on_clipboard_changed :: bool
  on_encryption_performed :: bool
  on_decryption_performed :: bool
  on_error :: bool
  on_encryption_status_changed :: bool
  processing :: bool
  last_processed_content :: str
  ignore_next_change :: bool
  processing_start_time :: real
  clipboard :: str
  paste_raises :: bool
  copy_raises :: bool
  clock :: real
  urandom :: "nat \<Rightarrow> bytes"
  urandom_calls :: nat
  calls :: "event list"
  copied :: "str list"
  slept :: "real list"
  threads :: "job list"
  printed :: "console list"

subsection \<open>Statements that may raise\<close>

type_synonym 'a action = "world \<Rightarrow> (exn + 'a) \<times> world"

definition ret :: "'a \<Rightarrow> 'a action" where
  "ret x = (\<lambda>s. (Inr x, s))"

definition raise :: "exn \<Rightarrow> 'a action" where
  "raise e = (\<lambda>s. (Inl e, s))"

definition bnd :: "'a action \<Rightarrow> ('a \<Rightarrow> 'b action) \<Rightarrow> 'b action" where
  "bnd m f = (\<lambda>s. case m s of (Inl e, s') \<Rightarrow> (Inl e, s') | (Inr x, s') \<Rightarrow> f x s')"

definition try_except :: "'a action \<Rightarrow> (exn \<Rightarrow> 'a action) \<Rightarrow> 'a action" where
  "try_except m h = (\<lambda>s. case m s of (Inl e, s') \<Rightarrow> h e s' | (Inr x, s') \<Rightarrow> (Inr x, s'))"

definition modify :: "(world \<Rightarrow> world) \<Rightarrow> unit action" where
  "modify f = (\<lambda>s. (Inr (), f s))"

definition call :: "(world \<Rightarrow> bool) \<Rightarrow> event \<Rightarrow> unit action" where
  "call registered ev = modify (\<lambda>s. if registered s then s\<lparr>calls := calls s @ [ev]\<rparr> else s)"

subsection \<open>The environment's operations\<close>

definition pyperclip_paste :: "str action" where
  "pyperclip_paste = (\<lambda>s. if paste_raises s then (Inl PyperclipException, s) else (Inr (clipboard s), s))"

definition pyperclip_copy :: "str \<Rightarrow> unit action" where
  "pyperclip_copy content =
     (\<lambda>s. if copy_raises s then (Inl PyperclipException, s\<lparr>copied := copied s @ [content]\<rparr>)
          else (Inr (), s\<lparr>copied := copied s @ [content], clipboard := content\<rparr>))"

definition time_sleep :: "real \<Rightarrow> unit action" where
  "time_sleep d = modify (\<lambda>s. s\<lparr>clock := clock s + d, slept := slept s @ [d]\<rparr>)"

definition crypto_is_encrypted_text :: "primitives \<Rightarrow> str \<Rightarrow> bool action" where
  "crypto_is_encrypted_text L text = (\<lambda>s. (is_encrypted_text L (crypto s) text, s))"

definition crypto_decrypt :: "primitives \<Rightarrow> str \<Rightarrow> str action" where
  "crypto_decrypt L ciphertext = (\<lambda>s. (decrypt L (crypto s) ciphertext, s))"

text \<open>\<open>encrypt\<close> reads the clock and the random source when it reaches \<open>Fernet.encrypt\<close>.\<close>

definition crypto_encrypt :: "primitives \<Rightarrow> str \<Rightarrow> str action" where
  "crypto_encrypt L plaintext =
     (\<lambda>s. case cipher_suite (crypto s) of
            None \<Rightarrow> (Inl (ValueError PleaseSetPassword), s)
          | Some _ \<Rightarrow>
              (case str_encode plaintext of
                 Inl e \<Rightarrow> (Inl e, s)
               | Inr _ \<Rightarrow>
                   (encrypt L (crypto s) \<lfloor>clock s\<rfloor> (urandom s (urandom_calls s)) plaintext,
                    s\<lparr>urandom_calls := Suc (urandom_calls s)\<rparr>)))"

subsection \<open>\<open>str.strip()\<close>\<close>

definition isspace :: "nat \<Rightarrow> bool" where
  "isspace c \<longleftrightarrow>
     (0x09 \<le> c \<and> c \<le> 0x0D) \<or> (0x1C \<le> c \<and> c \<le> 0x20) \<or> c = 0x85 \<or> c = 0xA0
     \<or> c = 0x1680 \<or> (0x2000 \<le> c \<and> c \<le> 0x200A) \<or> c = 0x2028 \<or> c = 0x2029
     \<or> c = 0x202F \<or> c = 0x205F \<or> c = 0x3000"

definition strip :: "str \<Rightarrow> str" where
  "strip s = rev (dropWhile isspace (rev (dropWhile isspace s)))"

subsection \<open>Reading and writing the clipboard\<close>

definition get_clipboard_content :: "str action" where
  "get_clipboard_content =
     try_except (bnd pyperclip_paste (\<lambda>content. ret (if content \<noteq> [] then content else [])))
       (\<lambda>e. ret [])"

text \<open>What \<open>_get_clipboard_content\<close> returns in a state.\<close>

definition content_read :: "world \<Rightarrow> str" where
  "content_read s = (case fst (get_clipboard_content s) of Inl _ \<Rightarrow> [] | Inr content \<Rightarrow> content)"

definition set_clipboard_content :: "str \<Rightarrow> unit action" where
  "set_clipboard_content content =
     try_except
       (bnd (modify (\<lambda>s. s\<lparr>processing := True, last_processed_content := content,
                             processing_start_time := clock s, ignore_next_change := True\<rparr>))
          (\<lambda>_. bnd (pyperclip_copy content)
          (\<lambda>_. bnd (time_sleep (1 / 5))
          (\<lambda>_. modify (\<lambda>s. s\<lparr>processing := False\<rparr>)))))
       (\<lambda>e. bnd (modify (\<lambda>s. s\<lparr>processing := False, ignore_next_change := False\<rparr>))
          (\<lambda>_. call on_error (ErrorReported (SetClipboardFailed e))))"

subsection \<open>The monitor\<close>

definition auto_encrypt :: "primitives \<Rightarrow> str \<Rightarrow> unit action" where
  "auto_encrypt L plaintext =
     try_except
       (bnd (crypto_encrypt L plaintext)
          (\<lambda>encrypted_text. bnd (set_clipboard_content encrypted_text)
          (\<lambda>_. call on_encryption_performed (EncryptionPerformed (Plain plaintext)))))
       (\<lambda>e. call on_error (ErrorReported (AutoEncryptFailed e)))"

definition auto_decrypt :: "primitives \<Rightarrow> str \<Rightarrow> unit action" where
  "auto_decrypt L ciphertext =
     try_except
       (bnd (crypto_decrypt L ciphertext)
          (\<lambda>decrypted. bnd (set_clipboard_content decrypted)
          (\<lambda>_. call on_decryption_performed (DecryptionPerformed (Plain decrypted)))))
       (\<lambda>e. call on_error (ErrorReported (AutoDecryptFailed e)))"

definition handle_clipboard_change :: "primitives \<Rightarrow> str \<Rightarrow> str \<Rightarrow> unit action" where
  "handle_clipboard_change L old_content new_content =
     try_except
       (bnd (call on_clipboard_changed (ClipboardChanged old_content new_content))
          (\<lambda>_. if strip new_content = [] then ret ()
                else bnd (crypto_is_encrypted_text L new_content)
                  (\<lambda>is_encrypted. (\<lambda>s.
                     (if \<not> is_encrypted \<and> encryption_enabled s then auto_encrypt L new_content
                      else if is_encrypted then
                        call on_encryption_status_changed
                          (EncryptionStatusChanged (length new_content))
                      else ret ()) s))))
       (\<lambda>e. call on_error (ErrorReported (HandleChangeFailed e)))"

text \<open>The condition \<open>should_process\<close> of the loop, for the content just read.\<close>

definition should_process :: "world \<Rightarrow> str \<Rightarrow> bool" where
  "should_process s current_content \<longleftrightarrow>
     current_content \<noteq> last_clipboard_content s \<and> \<not> processing s \<and> \<not> ignore_next_change s
     \<and> (current_content \<noteq> last_processed_content s \<or> clock s - processing_start_time s > 5)"

text \<open>One pass through the body of the \<open>while\<close> loop of \<open>_monitor_clipboard\<close>.\<close>

definition monitor_iteration :: "primitives \<Rightarrow> unit action" where
  "monitor_iteration L =
     try_except
       (bnd get_clipboard_content
          (\<lambda>current_content. (\<lambda>s.
             bnd (if should_process s current_content then
                    bnd (handle_clipboard_change L (last_clipboard_content s) current_content)
                      (\<lambda>_. modify (\<lambda>s. s\<lparr>last_clipboard_content := current_content\<rparr>))
                  else if ignore_next_change s then
                    modify (\<lambda>s. s\<lparr>ignore_next_change := False,
                                   last_clipboard_content := current_content\<rparr>)
                  else ret ())
               (\<lambda>_. time_sleep (1 / 2)) s)))
       (\<lambda>e. bnd (call on_error (ErrorReported (MonitorError e))) (\<lambda>_. time_sleep 1))"

text \<open>
  \<open>_monitor_clipboard\<close>: the snapshot is taken, then the loop runs while \<open>is_running\<close>
  holds.  The other threads and the user act between two passes: the schedule gives,
  for each pass, what they do to the state before it.  A pass that raised would end the
  thread.
\<close>

fun monitor_loop :: "primitives \<Rightarrow> (world \<Rightarrow> world) list \<Rightarrow> unit action" where
  "monitor_loop L [] = ret ()"
| "monitor_loop L (others # schedule) =
     (\<lambda>s. if is_running (others s)
          then bnd (monitor_iteration L) (\<lambda>_. monitor_loop L schedule) (others s)
          else (Inr (), others s))"

definition monitor_clipboard :: "primitives \<Rightarrow> (world \<Rightarrow> world) list \<Rightarrow> unit action" where
  "monitor_clipboard L schedule =
     bnd get_clipboard_content
       (\<lambda>content. bnd (modify (\<lambda>s. s\<lparr>last_clipboard_content := content\<rparr>))
       (\<lambda>_. monitor_loop L schedule))"

subsection \<open>The manual operations\<close>





definition peek_decrypt :: "primitives \<Rightarrow> str action" where
  "peek_decrypt L =
     try_except
       (bnd get_clipboard_content
          (\<lambda>content.
             if strip content = [] then ret []
             else bnd (crypto_is_encrypted_text L content)
               (\<lambda>is_encrypted.
                  if \<not> is_encrypted then ret content
                  else bnd (crypto_decrypt L content) (\<lambda>decrypted. ret decrypted))))
       (\<lambda>e. bnd (call on_error (ErrorReported (PeekDecryptFailed e))) (\<lambda>_. ret []))"

section \<open>The callers that check the duration\<close>

text \<open>\<open>AppSettings.temporary_decrypt_duration\<close>: the stored value, 10 when none is stored.\<close>

record app_settings =
  stored_duration :: "int option"

definition get_temporary_decrypt_duration :: "app_settings \<Rightarrow> int" where
  "get_temporary_decrypt_duration st = (case stored_duration st of None \<Rightarrow> 10 | Some v \<Rightarrow> v)"



section \<open>Scenarios and a small instance\<close>



text \<open>
  An instance of the primitives on which the model runs on concrete inputs.  It stands
  in for SHA-256 and Fernet only in that its hash returns 32 bytes and its tokens open
  under the key that sealed them, and under no other key of that length.
\<close>

definition demo_sha256 :: "bytes \<Rightarrow> bytes" where
  "demo_sha256 x =
     replicate 32
       (if length x = 84 then 1
        else (case drop 64 x of
                [] \<Rightarrow> 0
              | b # _ \<Rightarrow> if b = 1 then (case x of [] \<Rightarrow> 0 | a # _ \<Rightarrow> a) else 0))"

definition demo :: primitives where
  "demo = \<lparr>sha256 = demo_sha256,
           fernet_encrypt = (\<lambda>k now iv d. k @ d),
           fernet_decrypt = (\<lambda>k token. if take (length k) token = k
                                          then Some (drop (length k) token) else None)\<rparr>"

definition demo_salt :: bytes where
  "demo_salt = replicate 16 0"

definition demo_iv :: bytes where
  "demo_iv = replicate 16 7"

text \<open>
  What \<open>encrypt\<close> returns under \<open>demo\<close> and the session below for the plaintext
  \<open>secret\<close>: the text \<open>PT09PT09PT09PT09PT09PT09PT09PT09PT09PT09PT1zZWNyZXQ=\<close>.
\<close>

definition demo_envelope :: str where
  "demo_envelope =
     [80, 84, 48, 57, 80, 84, 48, 57, 80, 84, 48, 57, 80, 84, 48, 57, 80, 84, 48, 57,
      80, 84, 48, 57, 80, 84, 48, 57, 80, 84, 48, 57, 80, 84, 48, 57, 80, 84, 48, 57,
      80, 84, 49, 122, 90, 87, 78, 121, 90, 88, 81, 61]"

text \<open>
  The same plaintext encrypted under the session of another password, \<open>b\<close>: the text
  \<open>Pj4-Pj4-Pj4-Pj4-Pj4-Pj4-Pj4-Pj4-Pj4-Pj4-Pj5zZWNyZXQ=\<close>.
\<close>

definition demo_foreign_envelope :: str where
  "demo_foreign_envelope =
     [80, 106, 52, 45, 80, 106, 52, 45, 80, 106, 52, 45, 80, 106, 52, 45, 80, 106, 52, 45,
      80, 106, 52, 45, 80, 106, 52, 45, 80, 106, 52, 45, 80, 106, 52, 45, 80, 106, 52, 45,
      80, 106, 53, 122, 90, 87, 78, 121, 90, 88, 81, 61]"

text \<open>The session that \<open>set_password\<close> derives under \<open>demo\<close> from the password \<open>a\<close>.\<close>

definition demo_manager :: crypto_manager where
  "demo_manager =
     \<lparr>key = Some (urlsafe_b64encode (replicate 32 61)), cipher_suite = Some (replicate 32 61)\<rparr>"

text \<open>
  A \<open>ClipboardManager\<close> as \<open>__init__\<close> leaves it, with every callback registered, in
  an environment whose clipboard is empty and works.
\<close>

definition initial_world :: "crypto_manager \<Rightarrow> world" where
  "initial_world cm =
     \<lparr>crypto = cm, is_running = False, last_clipboard_content = [],
      encryption_enabled = False, auto_decrypt_enabled = True,
      on_clipboard_changed = True, on_encryption_performed = True,
      on_decryption_performed = True, on_error = True, on_encryption_status_changed = True,
      processing = False, last_processed_content = [], ignore_next_change = False,
      processing_start_time = 0,
      clipboard = [], paste_raises = False, copy_raises = False, clock = 0,
      urandom = (\<lambda>_. demo_iv), urandom_calls = 0,
      calls = [], copied = [], slept = [], threads = [], printed = []\<rparr>"

subsection \<open>UTF-8\<close>

lemma unat_byte: "n < 256 \<Longrightarrow> unat (of_nat n :: byte) = n"
  by (simp add: unat_of_nat take_bit_nat_eq_self)

lemma emit_Inr [simp]: "emit c (Inr cs) = Inr (c # cs)"
  by (simp add: emit_def)

lemma lin3:
  fixes a b m q c :: nat
  assumes "a * 64 + b = q" "q * 64 + m = c"
  shows "a * 4096 + b * 64 + m = c"
  using assms by arith

lemma split3: "(c::nat) div 4096 * 4096 + c div 64 mod 64 * 64 + c mod 64 = c"
proof -
  have a: "c div 4096 = c div 64 div 64" by (simp add: div_mult2_eq)
  have b: "c div 64 div 64 * 64 + c div 64 mod 64 = c div 64" by (rule div_mult_mod_eq)
  have m: "c div 64 * 64 + c mod 64 = c" by (rule div_mult_mod_eq)
  show ?thesis unfolding a by (rule lin3 [OF b m])
qed

lemma lin4:
  fixes a b m q c :: nat
  assumes "a * 64 + b = q" "q * 4096 + m = c"
  shows "a * 262144 + b * 4096 + m = c"
  using assms by arith

lemma split4:
  "(c::nat) div 262144 * 262144 + c div 4096 mod 64 * 4096 + c div 64 mod 64 * 64 + c mod 64 = c"
proof -
  have a: "c div 262144 = c div 4096 div 64" by (simp add: div_mult2_eq)
  have b: "c div 4096 div 64 * 64 + c div 4096 mod 64 = c div 4096" by (rule div_mult_mod_eq)
  have r: "c mod 4096 = c div 64 mod 64 * 64 + c mod 64"
  proof -
    have "c mod 4096 = c mod (64 * 64)" by simp
    also have "\<dots> = 64 * (c div 64 mod 64) + c mod 64" by (rule mod_mult2_eq)
    finally show ?thesis by (simp add: mult.commute)
  qed
  have m: "c div 4096 * 4096 + (c div 64 mod 64 * 64 + c mod 64) = c"
    unfolding r [symmetric] by (rule div_mult_mod_eq)
  have "c div 4096 div 64 * 262144 + c div 4096 mod 64 * 4096 + (c div 64 mod 64 * 64 + c mod 64) = c"
    by (rule lin4 [OF b m])
  then show ?thesis unfolding a by (simp add: add.assoc)
qed

lemma cont_byte: "k < 64 \<Longrightarrow> is_cont (of_nat (0x80 + k)) \<and> cont (of_nat (0x80 + k)) = k"
proof -
  assume k: "k < 64"
  have "unat (of_nat (0x80 + k) :: byte) = 0x80 + k" using k by (simp add: unat_byte del: of_nat_add)
  then show ?thesis using k by (simp add: is_cont_def cont_def del: of_nat_add)
qed

lemma dec1:
  assumes "c < 0x80"
  shows "bytes_decode (of_nat c # rest) = emit c (bytes_decode rest)"
proof -
  have u: "unat (of_nat c :: byte) = c" using assms by (simp add: unat_byte)
  show ?thesis by (simp add: u assms Let_def)
qed

lemma dec2:
  assumes "0x80 \<le> c" "c < 0x800"
  shows "bytes_decode (of_nat (0xC0 + c div 64) # of_nat (0x80 + c mod 64) # rest)
         = emit c (bytes_decode rest)"
proof -
  have d: "2 \<le> c div 64" "c div 64 < 32" using assms by auto
  have u: "unat (of_nat (0xC0 + c div 64) :: byte) = 0xC0 + c div 64"
    using d by (simp add: unat_byte del: of_nat_add)
  have k: "is_cont (of_nat (0x80 + c mod 64))" "cont (of_nat (0x80 + c mod 64)) = c mod 64"
    using cont_byte [of "c mod 64"] by simp_all
  have e: "c div 64 * 64 + c mod 64 = c" by simp
  show ?thesis using d by (simp add: u k e Let_def del: of_nat_add)
qed

lemma dec3:
  assumes "0x800 \<le> c" "c < 0x10000" "\<not> is_surrogate c"
  shows "bytes_decode (of_nat (0xE0 + c div 4096) # of_nat (0x80 + c div 64 mod 64)
            # of_nat (0x80 + c mod 64) # rest)
         = emit c (bytes_decode rest)"
proof -
  have d: "c div 4096 < 16" using assms by auto
  have u: "unat (of_nat (0xE0 + c div 4096) :: byte) = 0xE0 + c div 4096"
    using d by (simp add: unat_byte del: of_nat_add)
  have k1: "is_cont (of_nat (0x80 + c div 64 mod 64))"
       "cont (of_nat (0x80 + c div 64 mod 64)) = c div 64 mod 64"
    using cont_byte [of "c div 64 mod 64"] by simp_all
  have k2: "is_cont (of_nat (0x80 + c mod 64))" "cont (of_nat (0x80 + c mod 64)) = c mod 64"
    using cont_byte [of "c mod 64"] by simp_all
  have e: "c div 4096 * 4096 + c div 64 mod 64 * 64 + c mod 64 = c"
    by (rule split3)
  show ?thesis using d assms by (simp add: u k1 k2 e Let_def del: of_nat_add)
qed

lemma dec4:
  assumes "0x10000 \<le> c" "c < 0x110000"
  shows "bytes_decode (of_nat (0xF0 + c div 262144) # of_nat (0x80 + c div 4096 mod 64)
            # of_nat (0x80 + c div 64 mod 64) # of_nat (0x80 + c mod 64) # rest)
         = emit c (bytes_decode rest)"
proof -
  have d: "c div 262144 < 5" using assms by auto
  have u: "unat (of_nat (0xF0 + c div 262144) :: byte) = 0xF0 + c div 262144"
    using d by (simp add: unat_byte del: of_nat_add)
  have k0: "is_cont (of_nat (0x80 + c div 4096 mod 64))"
       "cont (of_nat (0x80 + c div 4096 mod 64)) = c div 4096 mod 64"
    using cont_byte [of "c div 4096 mod 64"] by simp_all
  have k1: "is_cont (of_nat (0x80 + c div 64 mod 64))"
       "cont (of_nat (0x80 + c div 64 mod 64)) = c div 64 mod 64"
    using cont_byte [of "c div 64 mod 64"] by simp_all
  have k2: "is_cont (of_nat (0x80 + c mod 64))" "cont (of_nat (0x80 + c mod 64)) = c mod 64"
    using cont_byte [of "c mod 64"] by simp_all
  have e: "c div 262144 * 262144 + c div 4096 mod 64 * 4096 + c div 64 mod 64 * 64 + c mod 64 = c"
    by (rule split4)
  show ?thesis using d assms by (simp add: u k0 k1 k2 e Let_def del: of_nat_add)
qed

lemma decode_encode_char:
  assumes "encode_char c = Some bs"
  shows "bytes_decode (bs @ rest) = emit c (bytes_decode rest)"
proof -
  consider "c < 0x80" | "0x80 \<le> c" "c < 0x800" | "0x800 \<le> c" "c < 0x10000" "\<not> is_surrogate c"
    | "0x10000 \<le> c" "c < 0x110000" | "0x800 \<le> c" "c < 0x10000" "is_surrogate c" | "0x110000 \<le> c"
    by linarith
  then show ?thesis
  proof cases
    case 1
    with assms have "bs = [of_nat c]" by (simp add: encode_char_def)
    with dec1 [OF 1, of rest] show ?thesis by simp
  next
    case 2
    with assms have "bs = [of_nat (0xC0 + c div 64), of_nat (0x80 + c mod 64)]"
      by (simp add: encode_char_def del: of_nat_add)
    with dec2 [OF 2, of rest] show ?thesis by simp
  next
    case 3
    with assms have "bs = [of_nat (0xE0 + c div 4096), of_nat (0x80 + c div 64 mod 64),
              of_nat (0x80 + c mod 64)]"
      by (simp add: encode_char_def del: of_nat_add)
    with dec3 [OF 3, of rest] show ?thesis by simp
  next
    case 4
    then have "\<not> is_surrogate c" by (simp add: is_surrogate_def)
    with 4 assms have "bs = [of_nat (0xF0 + c div 262144), of_nat (0x80 + c div 4096 mod 64),
              of_nat (0x80 + c div 64 mod 64), of_nat (0x80 + c mod 64)]"
      by (simp add: encode_char_def del: of_nat_add)
    with dec4 [OF 4, of rest] show ?thesis by simp
  next
    case 5
    with assms show ?thesis by (simp add: encode_char_def)
  next
    case 6
    then have "\<not> is_surrogate c" by (simp add: is_surrogate_def)
    with 6 assms show ?thesis by (simp add: encode_char_def)
  qed
qed

lemma decode_encode: "str_encode s = Inr b \<Longrightarrow> bytes_decode b = Inr s"
proof (induction s arbitrary: b)
  case Nil
  then show ?case by simp
next
  case (Cons c cs)
  from Cons.prems obtain bs r where
    bs: "encode_char c = Some bs" and r: "str_encode cs = Inr r" and b: "b = bs @ r"
    by (auto split: option.splits sum.splits)
  from Cons.IH [OF r] have "bytes_decode r = Inr cs" .
  with decode_encode_char [OF bs, of r] show ?case by (simp add: b)
qed



lemma encode_unicode_text: "str_encode s = Inr b \<Longrightarrow> unicode_text s"
proof (induction s arbitrary: b)
  case Nil
  then show ?case by (simp add: unicode_text_def)
next
  case (Cons c cs)
  from Cons.prems obtain bs r where
    bs: "encode_char c = Some bs" and r: "str_encode cs = Inr r"
    by (auto split: option.splits sum.splits)
  from bs have "c < 0x110000 \<and> \<not> is_surrogate c"
    by (auto simp: encode_char_def is_surrogate_def split: if_splits)
  with Cons.IH [OF r] show ?case by (simp add: unicode_text_def)
qed


lemma ascii_encode:
  "list_all (\<lambda>b. b < 128) bs \<Longrightarrow> str_encode (map unat bs) = Inr bs"
proof (induction bs)
  case Nil
  then show ?case by simp
next
  case (Cons b bs)
  then have "unat b < 128" by (simp add: word_less_nat_alt)
  with Cons show ?case by (simp add: encode_char_def)
qed

subsection \<open>Base64\<close>

lemma len8: "LENGTH(8) = 8" by simp

lemma lt8:
  "(i::nat) < 8 \<longleftrightarrow> i = 7 \<or> i = 6 \<or> i = 5 \<or> i = 4 \<or> i = 3 \<or> i = 2 \<or> i = 1 \<or> i = 0"
  by arith

lemma regroup1:
  fixes a b :: byte
  shows "push_bit 2 (drop_bit 2 a) OR drop_bit 4 (push_bit 4 (a AND 3) OR drop_bit 4 b) = a"
  by (rule bit_word_eqI, simp only: lt8 len8, elim disjE, simp_all add: bit_simps)

lemma regroup2:
  fixes a b c :: byte
  shows "push_bit 4 ((push_bit 4 (a AND 3) OR drop_bit 4 b) AND 15)
           OR drop_bit 2 (push_bit 2 (b AND 15) OR drop_bit 6 c) = b"
  by (rule bit_word_eqI, simp only: lt8 len8, elim disjE, simp_all add: bit_simps)

lemma regroup3:
  fixes b c :: byte
  shows "push_bit 6 ((push_bit 2 (b AND 15) OR drop_bit 6 c) AND 3) OR (c AND 63) = c"
  by (rule bit_word_eqI, simp only: lt8 len8, elim disjE, simp_all add: bit_simps)

lemma regroup1_last:
  fixes a :: byte
  shows "push_bit 2 (drop_bit 2 a) OR drop_bit 4 (push_bit 4 (a AND 3)) = a"
  by (rule bit_word_eqI, simp only: lt8 len8, elim disjE, simp_all add: bit_simps)

lemma regroup2_last:
  fixes a b :: byte
  shows "push_bit 4 ((push_bit 4 (a AND 3) OR drop_bit 4 b) AND 15)
           OR drop_bit 2 (push_bit 2 (b AND 15)) = b"
  by (rule bit_word_eqI, simp only: lt8 len8, elim disjE, simp_all add: bit_simps)

lemma lt64I:
  fixes x :: byte
  assumes "x AND 63 = x"
  shows "x < 64"
proof -
  have "x AND mask 6 < 2 ^ 6" by (rule and_mask_less_size) (simp add: word_size)
  then show ?thesis using assms by (simp add: mask_eq_exp_minus_1)
qed

lemma sextet1: fixes a :: byte shows "drop_bit 2 a < 64"
  by (rule lt64I, rule bit_word_eqI, simp only: lt8 len8, elim disjE,
      auto simp: bit_simps dest: bit_imp_le_length)

lemma sextet2: fixes a b :: byte shows "push_bit 4 (a AND 3) OR drop_bit 4 b < 64"
  by (rule lt64I, rule bit_word_eqI, simp only: lt8 len8, elim disjE,
      auto simp: bit_simps dest: bit_imp_le_length)

lemma sextet3: fixes b c :: byte shows "push_bit 2 (b AND 15) OR drop_bit 6 c < 64"
  by (rule lt64I, rule bit_word_eqI, simp only: lt8 len8, elim disjE,
      auto simp: bit_simps dest: bit_imp_le_length)

lemma sextet4: fixes c :: byte shows "c AND 63 < 64"
  by (rule lt64I, rule bit_word_eqI, simp only: lt8 len8, elim disjE,
      auto simp: bit_simps dest: bit_imp_le_length)

lemma sextet2_last: fixes a :: byte shows "push_bit 4 (a AND 3) < 64"
  by (rule lt64I, rule bit_word_eqI, simp only: lt8 len8, elim disjE,
      auto simp: bit_simps dest: bit_imp_le_length)

lemma sextet3_last: fixes b :: byte shows "push_bit 2 (b AND 15) < 64"
  by (rule lt64I, rule bit_word_eqI, simp only: lt8 len8, elim disjE,
      auto simp: bit_simps dest: bit_imp_le_length)

lemma all_sextets:
  "list_all (\<lambda>n. alphabet_char n (table_b2a_base64 n)) (map of_nat [0..<64] :: byte list)"
  unfolding alphabet_char_def by code_simp

lemma table_inverse:
  fixes n :: byte
  assumes "n < 64"
  shows "alphabet_char n (table_b2a_base64 n)"
proof -
  have "unat n < 64" using assms by (simp add: word_less_nat_alt)
  then have "unat n \<in> set [0..<64]" by simp
  then have "of_nat (unat n) \<in> (of_nat ` set [0..<64] :: byte set)" by (rule imageI)
  then have "n \<in> set (map of_nat [0..<64])" by simp
  with all_sextets show ?thesis unfolding list_all_iff by blast
qed

lemma a2b_step0:
  "alphabet_char n c \<Longrightarrow> a2b_base64 (c # rest) 0 lc p out = a2b_base64 rest 1 n 0 out"
  by (simp add: alphabet_char_def)

lemma a2b_step1:
  "alphabet_char n c \<Longrightarrow> a2b_base64 (c # rest) 1 lc p out =
     a2b_base64 rest 2 (n AND 15) 0 (out @ [push_bit 2 lc OR drop_bit 4 n])"
  by (simp add: alphabet_char_def)

lemma a2b_step2:
  "alphabet_char n c \<Longrightarrow> a2b_base64 (c # rest) 2 lc p out =
     a2b_base64 rest 3 (n AND 3) 0 (out @ [push_bit 4 lc OR drop_bit 2 n])"
  by (simp add: alphabet_char_def)

lemma a2b_step3:
  "alphabet_char n c \<Longrightarrow> a2b_base64 (c # rest) 3 lc p out =
     a2b_base64 rest 0 0 0 (out @ [push_bit 6 lc OR n])"
  by (simp add: alphabet_char_def)

lemma a2b_pad3: "a2b_base64 (61 # rest) 3 lc 0 out = Inr out"
  by simp

lemma a2b_pad2: "a2b_base64 (61 # 61 # rest) 2 lc 0 out = Inr out"
  by simp

lemma a2b_b2a: "a2b_base64 (b2a_base64 s) 0 lc p out = Inr (out @ s)"
proof (induction s arbitrary: lc p out rule: b2a_base64.induct)
  case (1 a b c rest)
  show ?case
    by (simp only: b2a_base64.simps append_Cons append_Nil append_assoc
        a2b_step0 [OF table_inverse [OF sextet1]] a2b_step1 [OF table_inverse [OF sextet2]]
        a2b_step2 [OF table_inverse [OF sextet3]] a2b_step3 [OF table_inverse [OF sextet4]]
        regroup1 regroup2 regroup3 "1.IH")
next
  case (2 a b)
  show ?case
    by (simp only: b2a_base64.simps append_Cons append_Nil append_assoc
        a2b_step0 [OF table_inverse [OF sextet1]] a2b_step1 [OF table_inverse [OF sextet2]]
        a2b_step2 [OF table_inverse [OF sextet3_last]] a2b_pad3
        regroup1 regroup2_last)
next
  case (3 a)
  show ?case
    by (simp only: b2a_base64.simps append_Cons append_Nil append_assoc
        a2b_step0 [OF table_inverse [OF sextet1]] a2b_step1 [OF table_inverse [OF sextet2_last]]
        a2b_pad2 regroup1_last)
next
  case 4
  show ?case by simp
qed

lemma alphabet_plain: "alphabet_char n c \<Longrightarrow> plain_char c"
  by (simp add: alphabet_char_def plain_char_def)

lemma pad_plain: "plain_char 61"
  by (simp add: plain_char_def)

lemma b2a_plain: "list_all plain_char (b2a_base64 s)"
proof (induction s rule: b2a_base64.induct)
  case (1 a b c rest)
  then show ?case
    by (simp only: b2a_base64.simps append_Cons append_Nil list.pred_inject simp_thms
        alphabet_plain [OF table_inverse [OF sextet1]]
        alphabet_plain [OF table_inverse [OF sextet2]]
        alphabet_plain [OF table_inverse [OF sextet3]]
        alphabet_plain [OF table_inverse [OF sextet4]])
next
  case (2 a b)
  show ?case
    by (simp only: b2a_base64.simps list.pred_inject simp_thms pad_plain
        alphabet_plain [OF table_inverse [OF sextet1]]
        alphabet_plain [OF table_inverse [OF sextet2]]
        alphabet_plain [OF table_inverse [OF sextet3_last]])
next
  case (3 a)
  show ?case
    by (simp only: b2a_base64.simps list.pred_inject simp_thms pad_plain
        alphabet_plain [OF table_inverse [OF sextet1]]
        alphabet_plain [OF table_inverse [OF sextet2_last]])
next
  case 4
  show ?case by simp
qed

lemma translation_inverse:
  "plain_char c \<Longrightarrow> urlsafe_decode_translation (urlsafe_encode_translation c) = c"
  by (simp add: plain_char_def urlsafe_decode_translation_def urlsafe_encode_translation_def)

lemma translation_ascii: "plain_char c \<Longrightarrow> urlsafe_encode_translation c < 128"
  by (simp add: plain_char_def urlsafe_encode_translation_def)

lemma urlsafe_b64_roundtrip: "urlsafe_b64decode (urlsafe_b64encode s) = Inr s"
proof -
  have "map urlsafe_decode_translation (map urlsafe_encode_translation (b2a_base64 s))
          = b2a_base64 s"
    using b2a_plain [of s] by (simp add: list_all_iff translation_inverse map_idI)
  then show ?thesis
    by (simp add: urlsafe_b64decode_def urlsafe_b64encode_def b64decode_def b64encode_def a2b_b2a)
qed

lemma urlsafe_b64encode_ascii: "list_all (\<lambda>b. b < 128) (urlsafe_b64encode s)"
  using b2a_plain [of s]
  by (simp add: urlsafe_b64encode_def b64encode_def list_all_iff translation_ascii)

lemma Fernet_of_encoded: "length k = 32 \<Longrightarrow> Fernet (urlsafe_b64encode k) = Inr k"
  by (simp add: Fernet_def urlsafe_b64_roundtrip)

subsection \<open>Key derivation\<close>

lemma pbkdf2_rounds_length:
  assumes "\<And>x. length (prf x) = 32"
  shows "length t = 32 \<Longrightarrow> length (pbkdf2_rounds prf n u t) = 32"
proof (induction n arbitrary: u t)
  case 0
  then show ?case by simp
next
  case (Suc n)
  have "length (map2 (XOR) t (prf u)) = 32" using Suc.prems assms by simp
  from Suc.IH [OF this] show ?case by (simp add: Let_def)
qed

lemma hmac_length: "sha256_sized L \<Longrightarrow> length (hmac_sha256 L k m) = 32"
  by (simp add: sha256_sized_def hmac_sha256_def)

lemma derive_length:
  assumes "sha256_sized L"
  shows "length (PBKDF2HMAC_derive L 32 salt iterations password) = 32"
proof -
  have "length (pbkdf2_block L password salt iterations 1) = 32"
    unfolding pbkdf2_block_def Let_def
    by (rule pbkdf2_rounds_length) (simp_all add: hmac_length [OF assms])
  then show ?thesis by (simp add: PBKDF2HMAC_derive_def)
qed

lemma derive_32:
  "PBKDF2HMAC_derive L 32 salt c pw = take 32 (pbkdf2_block L pw salt c 1)"
  by (simp add: PBKDF2HMAC_derive_def)

lemma set_password_ok:
  assumes "sha256_sized L" and "str_encode password = Inr pw"
  shows "set_password L self password salt_arg r =
     Inr (self\<lparr>key := Some (urlsafe_b64encode
                 (PBKDF2HMAC_derive L 32 (case salt_arg of None \<Rightarrow> r | Some s \<Rightarrow> s) 100000 pw)),
              cipher_suite := Some
                 (PBKDF2HMAC_derive L 32 (case salt_arg of None \<Rightarrow> r | Some s \<Rightarrow> s) 100000 pw)\<rparr>,
          case salt_arg of None \<Rightarrow> r | Some s \<Rightarrow> s)"
  using assms
  by (simp add: set_password_def Let_def Fernet_of_encoded derive_length)





subsection \<open>Encryption and decryption\<close>


lemma decrypt_envelope:
  assumes "cipher_suite self = Some f"
  shows "decrypt L self (map unat (urlsafe_b64encode token)) =
     (case fernet_decrypt L f token of
        None \<Rightarrow> Inl (ValueError (DecryptFailed InvalidToken))
      | Some d \<Rightarrow> (case bytes_decode d of
                     Inl e \<Rightarrow> Inl (ValueError (DecryptFailed e)) | Inr s \<Rightarrow> Inr s))"
  using assms
  by (simp add: decrypt_def decrypt_body_def ascii_encode [OF urlsafe_b64encode_ascii]
      urlsafe_b64_roundtrip split: option.splits sum.splits)

lemma round_trip:
  assumes "fernet_correct L" and "cipher_suite self = Some f" and "length f = 32"
    and "str_encode plaintext = Inr d"
  shows "decrypt L self (map unat (urlsafe_b64encode (fernet_encrypt L f now iv d)))
           = Inr plaintext"
proof -
  from assms(1,3) have "fernet_decrypt L f (fernet_encrypt L f now iv d) = Some d"
    by (simp add: fernet_correct_def)
  with decode_encode [OF assms(4)] show ?thesis
    by (simp add: decrypt_envelope [OF assms(2)])
qed

lemma is_encrypted_text_total:
  "is_encrypted_text L self text = Inr True \<or> is_encrypted_text L self text = Inr False"
  by (auto simp: is_encrypted_text_def split: option.splits sum.splits)

lemma is_encrypted_text_iff:
  "is_encrypted_text L self text = Inr True \<longleftrightarrow> (\<exists>p. decrypt L self text = Inr p)"
  by (auto simp: is_encrypted_text_def is_encrypted_text_body_def decrypt_def decrypt_body_def
      split: option.splits sum.splits)

lemma is_encrypted_text_cases:
  obtains (envelope) p where
      "is_encrypted_text L self text = Inr True" "decrypt L self text = Inr p"
  | (other) e where
      "is_encrypted_text L self text = Inr False" "decrypt L self text = Inl e"
proof (cases "decrypt L self text")
  case (Inl e)
  then have "is_encrypted_text L self text \<noteq> Inr True" by (simp add: is_encrypted_text_iff)
  then have "is_encrypted_text L self text = Inr False"
    using is_encrypted_text_total [of L self "text"] by blast
  then show ?thesis using Inl by (rule other)
next
  case (Inr p)
  then have "is_encrypted_text L self text = Inr True" by (auto simp: is_encrypted_text_iff)
  then show ?thesis using Inr by (rule envelope)
qed

subsection \<open>The instance\<close>

lemma demo_sized: "sha256_sized demo"
  by (simp add: sha256_sized_def demo_def demo_sha256_def)

lemma demo_correct: "fernet_correct demo"
  by (simp add: fernet_correct_def demo_def)

lemma rounds_fixed:
  assumes "prf z = z" and "map2 (XOR) t z = t"
  shows "prf u = z \<Longrightarrow> pbkdf2_rounds prf n u t = t"
proof (induction n arbitrary: u)
  case 0
  then show ?case by simp
next
  case (Suc n)
  from Suc.IH [OF assms(1)] Suc.prems assms(2) show ?case by (simp add: Let_def)
qed

lemma replicate_case:
  "0 < n \<Longrightarrow> (case replicate n b of [] \<Rightarrow> z | a # x \<Rightarrow> f a) = f b"
  by (cases n) simp_all

lemma demo_key_block: "hmac_key_block demo [k0] = k0 # replicate 63 0"
  by (simp add: hmac_key_block_def)

lemma demo_hmac_first:
  "hmac_sha256 demo [k0] (demo_salt @ int32_be 1) = replicate 32 (k0 XOR 0x5C)"
  by (simp add: hmac_sha256_def demo_key_block replicate_case)
     (simp add: demo_def demo_sha256_def demo_salt_def int32_be_def replicate_case)

lemma demo_hmac_next:
  "b \<noteq> 1 \<Longrightarrow> hmac_sha256 demo [k0] (replicate 32 b) = replicate 32 0"
  by (simp add: hmac_sha256_def demo_key_block replicate_case)
     (simp add: demo_def demo_sha256_def replicate_case)

lemma xor_zeros: "map2 (XOR) (replicate 32 (b::byte)) (replicate 32 0) = replicate 32 b"
  by (simp add: numeral_eq_Suc)

lemma demo_derive:
  assumes "k0 XOR 0x5C \<noteq> 1"
  shows "PBKDF2HMAC_derive demo 32 demo_salt 100000 [k0] = replicate 32 (k0 XOR 0x5C)"
proof -
  have r: "pbkdf2_rounds (hmac_sha256 demo [k0]) (100000 - 1) (replicate 32 (k0 XOR 0x5C))
          (replicate 32 (k0 XOR 0x5C)) = replicate 32 (k0 XOR 0x5C)"
    by (rule rounds_fixed [where z = "replicate 32 0"])
       (simp_all add: demo_hmac_next [OF assms] demo_hmac_next [of 0] xor_zeros)
  show ?thesis
    unfolding derive_32 pbkdf2_block_def Let_def demo_hmac_first r by simp
qed


lemma demo_session_b:
  "set_password demo CryptoManager_init [98] (Some demo_salt) r =
     Inr (\<lparr>key = Some (urlsafe_b64encode (replicate 32 62)),
           cipher_suite = Some (replicate 32 62)\<rparr>, demo_salt)"
proof -
  have e: "str_encode [98] = Inr [98]" by (simp add: encode_char_def)
  have "PBKDF2HMAC_derive demo 32 demo_salt 100000 [98] = replicate 32 62"
    using demo_derive [of 98] by simp
  then show ?thesis
    by (simp add: set_password_ok [OF demo_sized e] CryptoManager_init_def)
qed


text \<open>
  A string with a lone surrogate has no UTF-8 form: \<open>encrypt\<close> raises on it.
\<close>

lemma encrypt_lone_surrogate:
  "cipher_suite self = Some f \<Longrightarrow> encrypt L self now iv [0xD800] = Inl UnicodeEncodeError"
  by (simp add: encrypt_def encode_char_def is_surrogate_def)








subsection \<open>Running the statements\<close>

lemmas action_defs = bnd_def ret_def raise_def try_except_def modify_def call_def time_sleep_def

lemma get_clipboard_content_run:
  "get_clipboard_content s = (Inr (content_read s), s)"
  by (simp add: content_read_def get_clipboard_content_def pyperclip_paste_def action_defs)

lemma content_read_eq: "content_read s = (if paste_raises s then [] else clipboard s)"
  by (simp add: content_read_def get_clipboard_content_def pyperclip_paste_def action_defs)

lemma set_clipboard_content_run:
  "set_clipboard_content c s =
     (Inr (),
      if copy_raises s then
        s\<lparr>processing := False, last_processed_content := c, processing_start_time := clock s,
          ignore_next_change := False, copied := copied s @ [c],
          calls := (if on_error s
                    then calls s @ [ErrorReported (SetClipboardFailed PyperclipException)]
                    else calls s)\<rparr>
      else
        s\<lparr>processing := False, last_processed_content := c, processing_start_time := clock s,
          ignore_next_change := True, copied := copied s @ [c], clipboard := c,
          clock := clock s + 1 / 5, slept := slept s @ [1 / 5]\<rparr>)"
  by (simp add: set_clipboard_content_def pyperclip_copy_def action_defs)



lemma auto_encrypt_run:
  "auto_encrypt L p s =
     (Inr (),
      case crypto_encrypt L p s of
        (Inl e, s1) \<Rightarrow>
          (if on_error s1 then s1\<lparr>calls := calls s1 @ [ErrorReported (AutoEncryptFailed e)]\<rparr>
           else s1)
      | (Inr c, s1) \<Rightarrow>
          (let s2 = snd (set_clipboard_content c s1) in
           if on_encryption_performed s2
           then s2\<lparr>calls := calls s2 @ [EncryptionPerformed (Plain p)]\<rparr> else s2))"
  by (simp add: auto_encrypt_def action_defs set_clipboard_content_run
      split: prod.splits sum.splits)

lemma handle_clipboard_change_run:
  "handle_clipboard_change L old new s =
     (Inr (),
      let s1 = (if on_clipboard_changed s then s\<lparr>calls := calls s @ [ClipboardChanged old new]\<rparr>
                else s) in
      if strip new = [] then s1
      else if is_encrypted_text L (crypto s) new = Inr True then
        (if on_encryption_status_changed s
         then s1\<lparr>calls := calls s1 @ [EncryptionStatusChanged (length new)]\<rparr> else s1)
      else if encryption_enabled s then snd (auto_encrypt L new s1)
      else s1)"
  using is_encrypted_text_total [of L "crypto s" new]
  by (auto simp: handle_clipboard_change_def action_defs crypto_is_encrypted_text_def
      auto_encrypt_run Let_def)

lemma monitor_iteration_run:
  "monitor_iteration L s =
     (Inr (),
      let c = content_read s;
          s1 = (if should_process s c then
                  (snd (handle_clipboard_change L (last_clipboard_content s) c s))
                    \<lparr>last_clipboard_content := c\<rparr>
                else if ignore_next_change s then
                  s\<lparr>ignore_next_change := False, last_clipboard_content := c\<rparr>
                else s)
      in s1\<lparr>clock := clock s1 + 1 / 2, slept := slept s1 @ [1 / 2]\<rparr>)"
  by (simp add: monitor_iteration_def action_defs get_clipboard_content_run
      handle_clipboard_change_run Let_def)

subsection \<open>What a pass of the monitor leaves unchanged\<close>






lemma monitor_iteration_snapshot:
  "last_clipboard_content (snd (monitor_iteration L s)) =
     (if should_process s (content_read s) \<or> ignore_next_change s then content_read s
      else last_clipboard_content s)"
  by (simp add: monitor_iteration_run Let_def)











text \<open>
  C3.  The claim as stated fails.  The clipboard holds what the program last wrote
  (\<open>d\<close>), less than five seconds ago, the snapshot holds \<open>x\<close>, no write is in progress
  and the ignore flag is clear: the pass neither processes the content nor moves the
  snapshot, which still holds \<open>x\<close> at its end.
\<close>

theorem snapshot_not_updated_counterexample:
  "content_read ((initial_world demo_manager)
       \<lparr>last_clipboard_content := [120], last_processed_content := [100],
        clipboard := [100], clock := 2\<rparr>) = [100]
   \<and> last_clipboard_content (snd (monitor_iteration demo ((initial_world demo_manager)
       \<lparr>last_clipboard_content := [120], last_processed_content := [100],
        clipboard := [100], clock := 2\<rparr>))) = [120]"
  by (simp add: monitor_iteration_run should_process_def content_read_eq initial_world_def
      Let_def)

text \<open>
  C3, as amended.  A pass sets the snapshot to the content it read when it processes the
  change or when it consumes the ignore flag; otherwise it leaves the snapshot as it
  was (so a change that is suppressed while a write is in progress, or because the
  content is what the program wrote in the last five seconds, is met again by the next
  pass).
\<close>

theorem snapshot_after_iteration:
  "last_clipboard_content (snd (monitor_iteration L s)) =
     (if should_process s (content_read s) \<or> ignore_next_change s then content_read s
      else last_clipboard_content s)"
  by (rule monitor_iteration_snapshot)

theorem snapshot_after_iteration_witness:
  "last_clipboard_content (snd (monitor_iteration demo
       ((initial_world demo_manager)\<lparr>clipboard := [104, 105]\<rparr>))) = [104, 105]
   \<and> last_clipboard_content (snd (monitor_iteration demo
       ((initial_world demo_manager)\<lparr>clipboard := [104, 105], processing := True\<rparr>))) = []"
  using snapshot_after_iteration [of demo "(initial_world demo_manager)\<lparr>clipboard := [104, 105]\<rparr>"]
    snapshot_after_iteration
      [of demo "(initial_world demo_manager)\<lparr>clipboard := [104, 105], processing := True\<rparr>"]
  by (simp add: should_process_def content_read_eq initial_world_def)





subsection \<open>Running the manual operations\<close>




lemma peek_decrypt_run:
  "peek_decrypt L s =
     (Inr (let c = content_read s in
           if strip c = [] then []
           else (case decrypt L (crypto s) c of Inl e \<Rightarrow> c | Inr p \<Rightarrow> p)), s)"
  by (rule is_encrypted_text_cases [of L "crypto s" "content_read s"])
     (simp_all add: peek_decrypt_def action_defs get_clipboard_content_run
      crypto_is_encrypted_text_def crypto_decrypt_def Let_def)


lemma demo_envelope_eq:
  "demo_envelope = map unat (urlsafe_b64encode
     (fernet_encrypt demo (replicate 32 61) 0 demo_iv [115, 101, 99, 114, 101, 116]))"
  by code_simp

lemma demo_envelope_decrypt:
  "decrypt demo demo_manager demo_envelope = Inr [115, 101, 99, 114, 101, 116]"
proof -
  have e: "str_encode [115, 101, 99, 114, 101, 116] = Inr [115, 101, 99, 114, 101, 116]"
    by (simp add: encode_char_def)
  show ?thesis
    unfolding demo_envelope_eq
    by (rule round_trip [OF demo_correct _ _ e]) (simp_all add: demo_manager_def)
qed

lemma demo_envelope_strip: "strip demo_envelope \<noteq> []"
  by (simp add: strip_def demo_envelope_def isspace_def)

lemma demo_cipher_suite: "cipher_suite demo_manager = Some (replicate 32 61)"
  by (simp add: demo_manager_def)




lemma demo_world_envelope:
  "content_read ((initial_world demo_manager)\<lparr>clipboard := demo_envelope\<rparr>) = demo_envelope"
  "crypto ((initial_world demo_manager)\<lparr>clipboard := demo_envelope\<rparr>) = demo_manager"
  by (simp_all add: content_read_eq initial_world_def)





lemma demo_foreign_envelope_eq:
  "demo_foreign_envelope = map unat (urlsafe_b64encode
     (fernet_encrypt demo (replicate 32 62) 0 demo_iv [115, 101, 99, 114, 101, 116]))"
  by code_simp

lemma demo_foreign_envelope_decrypt:
  "decrypt demo demo_manager demo_foreign_envelope
     = Inl (ValueError (DecryptFailed InvalidToken))"
  unfolding demo_foreign_envelope_eq
  by (simp add: decrypt_envelope [OF demo_cipher_suite]) (simp add: demo_def)

lemma demo_foreign_envelope_strip: "strip demo_foreign_envelope \<noteq> []"
  by (simp add: strip_def demo_foreign_envelope_def isspace_def)

text \<open>
  C9.  The claim as stated fails in its second half.  The clipboard holds a text that
  was encrypted under another password, or the word \<open>hello\<close>; \<open>decrypt\<close> fails on
  both (\<open>InvalidToken\<close> for the first, a base64 error for the second), and
  \<open>peek_decrypt\<close> returns the text of the clipboard, not the empty string.
\<close>

theorem peek_returns_content_counterexample:
  "decrypt demo demo_manager demo_foreign_envelope
     = Inl (ValueError (DecryptFailed InvalidToken))
   \<and> fst (peek_decrypt demo
        ((initial_world demo_manager)\<lparr>clipboard := demo_foreign_envelope\<rparr>))
     = Inr demo_foreign_envelope
   \<and> demo_foreign_envelope \<noteq> []
   \<and> decrypt demo demo_manager [104, 101, 108, 108, 111]
     = Inl (ValueError (DecryptFailed BinasciiError))
   \<and> fst (peek_decrypt demo
        ((initial_world demo_manager)\<lparr>clipboard := [104, 101, 108, 108, 111]\<rparr>))
     = Inr [104, 101, 108, 108, 111]"
proof -
  have d: "decrypt demo demo_manager [104, 101, 108, 108, 111]
             = Inl (ValueError (DecryptFailed BinasciiError))"
    by (simp add: decrypt_def decrypt_body_def demo_cipher_suite encode_char_def
        urlsafe_b64decode_def b64decode_def urlsafe_decode_translation_def table_a2b_base64_def)
  have s: "strip [104, 101, 108, 108, 111] \<noteq> []" by (simp add: strip_def isspace_def)
  have c: "content_read ((initial_world demo_manager)\<lparr>clipboard := x\<rparr>) = x"
    "crypto ((initial_world demo_manager)\<lparr>clipboard := x\<rparr>) = demo_manager" for x
    by (simp_all add: content_read_eq initial_world_def)
  have n: "demo_foreign_envelope \<noteq> []" by (simp add: demo_foreign_envelope_def)
  show ?thesis
    by (simp add: peek_decrypt_run c d s n demo_foreign_envelope_decrypt
        demo_foreign_envelope_strip Let_def)
qed

text \<open>
  C9, as amended.  \<open>peek_decrypt\<close> never raises and leaves the whole state as it was:
  it writes nothing to the clipboard and calls no callback.  It returns the empty string
  for a blank clipboard, the plaintext when \<open>decrypt\<close> accepts the content, and the
  content itself when \<open>decrypt\<close> rejects it.
\<close>

theorem peek_decrypt_reads_only:
  "peek_decrypt L s =
     (Inr (if strip (content_read s) = [] then []
           else (case decrypt L (crypto s) (content_read s) of
                   Inl e \<Rightarrow> content_read s
                 | Inr p \<Rightarrow> p)), s)"
  by (simp add: peek_decrypt_run Let_def)

theorem peek_decrypt_reads_only_witness:
  "peek_decrypt demo ((initial_world demo_manager)\<lparr>clipboard := demo_envelope\<rparr>)
     = (Inr [115, 101, 99, 114, 101, 116],
        (initial_world demo_manager)\<lparr>clipboard := demo_envelope\<rparr>)
   \<and> peek_decrypt demo ((initial_world demo_manager)\<lparr>clipboard := [32, 9]\<rparr>)
     = (Inr [], (initial_world demo_manager)\<lparr>clipboard := [32, 9]\<rparr>)"
proof -
  have b: "content_read ((initial_world demo_manager)\<lparr>clipboard := [32, 9]\<rparr>) = [32, 9]"
    by (simp add: content_read_eq initial_world_def)
  have s: "strip [32, 9] = []" by (simp add: strip_def isspace_def)
  from peek_decrypt_reads_only [of demo "(initial_world demo_manager)\<lparr>clipboard := demo_envelope\<rparr>"]
    peek_decrypt_reads_only [of demo "(initial_world demo_manager)\<lparr>clipboard := [32, 9]\<rparr>"]
  show ?thesis
    by (simp add: demo_world_envelope demo_envelope_decrypt demo_envelope_strip b s)
qed







end
